theory Spec2Isabelle
  imports Main "HOL-Library.Word"
begin

section \<open>AC light control: a shallow embedding of \<^verbatim>\<open>ac_light_control.ino\<close>\<close>

text \<open>
  The sketch runs on an 8-bit AVR Arduino (TimerOne, external interrupt 0 on pin 2):
  \<^verbatim>\<open>unsigned long\<close> is 32 bits wide, \<^verbatim>\<open>int\<close> is 16 bits wide and \<^verbatim>\<open>byte\<close> is 8 bits wide.
  All three are modelled as machine words, so that \<open>+\<close>, \<open>-\<close> and \<open>*\<close> wrap around as the
  unsigned C arithmetic does. The value of \<^verbatim>\<open>analogRead\<close> is a signed 16-bit \<^verbatim>\<open>int\<close>; it is
  kept as a 16-bit word and converted with the sign-extending cast where the source
  converts it to \<^verbatim>\<open>unsigned long\<close>.
\<close>

type_synonym u8 = "8 word"
type_synonym i16 = "16 word"
type_synonym u32 = "32 word"

subsection \<open>External services\<close>

text \<open>
  The timer, the edge interrupt, the digital outputs and the busy delay are services of
  the board. A call to one of them is recorded, in program order, in the \<open>trace\<close> field
  of the state, with the arguments the program passed.
\<close>

datatype level = LOW | HIGH

datatype event =
    Timer1_initialize u32
  | Timer1_attachInterrupt u32
  | AttachInterrupt0_FALLING
  | PinMode_OUTPUT u8
  | DigitalWrite u8 level
  | DelayMicroseconds nat

subsection \<open>Global variables\<close>

text \<open>
  The globals that the program writes are the fields of \<open>state\<close>. The arrays
  \<^verbatim>\<open>ZeroXTime[4]\<close> and \<^verbatim>\<open>FireTriac[4]\<close> are lists; an access outside a list is the fault
  \<open>OutOfBounds\<close> (undefined behaviour in C). \<^verbatim>\<open>AvgPeriod\<close> is declared by the source and
  never used. \<^verbatim>\<open>PeriodResync\<close>, \<^verbatim>\<open>DimRes\<close>, \<^verbatim>\<open>TriacPin\<close> and \<^verbatim>\<open>PowerMap\<close> are never written
  after their initialisation and are constants here.
\<close>

record state =
  ZeroXTime :: "u32 list"
  DimStep :: u32
  ResetPeriod :: u32
  DimStepCounter :: u32
  FireTriac :: "u32 list"
  zero_cross :: bool
  trace :: "event list"

datatype fault = OutOfBounds

definition PeriodResync :: u32 where
  "PeriodResync = 3000"

definition DimRes :: u32 where
  "DimRes = 256"

definition TriacPin :: "u8 list" where
  "TriacPin = [3, 5, 6, 7]"

definition PowerMap :: "u8 list" where
  "PowerMap = [
 255,245,241,237,235,232,230,228,226,224,223,221,220,218,217,215,214,213,211,210,209,208,207,205,204,203,202,201,200,199,198,197,
 196,195,194,193,192,192,191,190,189,188,187,186,185,185,184,183,182,181,181,180,179,178,177,177,176,175,174,174,173,172,171,171,
 170,169,168,168,167,166,165,165,164,163,163,162,161,161,160,159,158,158,157,156,156,155,154,154,153,152,152,151,150,150,149,148,
 148,147,146,146,145,144,144,143,143,142,141,141,140,139,139,138,137,137,136,135,135,134,134,133,132,132,131,130,130,129,128,128,
 127,127,126,125,125,124,123,123,122,121,121,120,120,119,118,118,117,116,116,115,114,114,113,112,112,111,111,110,109,109,108,107,
 107,106,105,105,104,103,103,102,101,101,100,99,99,98,97,97,96,95,94,94,93,92,92,91,90,90,89,88,87,87,86,85,84,84,83,82,81,81,80,
 79,78,78,77,76,75,74,74,73,72,71,70,70,69,68,67,66,65,64,63,63,62,61,60,59,58,57,56,55,54,53,52,51,50,48,47,46,45,44,42,41,40,38,
 37,35,34,32,31,29,27,25,23,20,18,14,10,0]"

text \<open>The values of the globals when \<^verbatim>\<open>setup\<close> starts (the C initialisers).\<close>

definition init_state :: state where
  "init_state =
     \<lparr>ZeroXTime = [0, 0, 0, 0], DimStep = 0, ResetPeriod = PeriodResync, DimStepCounter = 0,
      FireTriac = [0, 0, 0, 0], zero_cross = False, trace = []\<rparr>"

definition emit :: "event \<Rightarrow> state \<Rightarrow> state" where
  "emit e s = s\<lparr>trace := trace s @ [e]\<rparr>"

text \<open>Sequencing of steps that may fault.\<close>

definition and_then :: "fault + 'a \<Rightarrow> ('a \<Rightarrow> fault + 'b) \<Rightarrow> fault + 'b" where
  "and_then r f = (case r of Inl e \<Rightarrow> Inl e | Inr x \<Rightarrow> f x)"

subsection \<open>The interrupt handlers\<close>

definition zero_cross_detect :: "state \<Rightarrow> state" where
  "zero_cross_detect s = s\<lparr>zero_cross := True, DimStepCounter := 0\<rparr>"

text \<open>
  \<^verbatim>\<open>fire_triac\<close> runs inside the Timer1 interrupt, where no other handler runs, so every
  read of \<^verbatim>\<open>FireTriac[TriacNum]\<close> and of \<^verbatim>\<open>DimStepCounter\<close> in one call sees the same value.
\<close>

definition fire_triac :: "int \<Rightarrow> state \<Rightarrow> fault + state" where
  "fire_triac TriacNum s =
     (if 0 \<le> TriacNum \<and> nat TriacNum < length (FireTriac s) \<and> nat TriacNum < length TriacPin then
        (if FireTriac s ! nat TriacNum = DimStepCounter s then
           (let s1 = (if FireTriac s ! nat TriacNum \<noteq> DimRes
                      then emit (DigitalWrite (TriacPin ! nat TriacNum) HIGH) s else s);
                s2 = (if FireTriac s ! nat TriacNum \<noteq> DimRes \<and> FireTriac s ! nat TriacNum \<noteq> 0
                      then emit (DelayMicroseconds 2) s1 else s1);
                s3 = (if FireTriac s ! nat TriacNum \<noteq> 0
                      then emit (DigitalWrite (TriacPin ! nat TriacNum) LOW) s2 else s2)
            in Inr s3)
         else Inr s)
      else Inl OutOfBounds)"

text \<open>The loop \<^verbatim>\<open>for(int i=0; i<4; i++) fire_triac(i);\<close> from the value \<open>i\<close> on.\<close>

function fire_loop :: "int \<Rightarrow> state \<Rightarrow> fault + state" where
  "fire_loop i s =
     (if i < 4 then and_then (fire_triac i s) (fire_loop (i + 1)) else Inr s)"
  by pat_completeness auto
termination
  by (relation "measure (\<lambda>(i, s). nat (4 - i))") auto

definition fire_triacs :: "state \<Rightarrow> fault + state" where
  "fire_triacs s =
     and_then (fire_loop 0 s) (\<lambda>s'. Inr (s'\<lparr>DimStepCounter := DimStepCounter s' + 1\<rparr>))"

subsection \<open>Interrupts during the busy wait\<close>

text \<open>
  While \<^verbatim>\<open>measure_half_period\<close> spins, the two handlers of the program run between its
  statements. The environment gives, for every pass through the \<^verbatim>\<open>while\<close> loop, the
  interrupts that are serviced before \<^verbatim>\<open>zero_cross\<close> is tested (\<open>pending\<close>), the value
  \<^verbatim>\<open>micros()\<close> has in that pass (\<open>clock\<close>), and the interrupts that are serviced after the
  test and before \<^verbatim>\<open>zero_cross = 0\<close> (\<open>late\<close>, only when the test succeeded). Interrupts
  after \<^verbatim>\<open>zero_cross = 0\<close> belong to \<open>pending\<close> of the next pass.
\<close>

datatype irq = ZeroCrossIrq | Timer1Irq

record poll =
  pending :: "irq list"
  clock :: u32
  late :: "irq list"

fun service :: "irq \<Rightarrow> state \<Rightarrow> fault + state" where
  "service ZeroCrossIrq s = Inr (zero_cross_detect s)"
| "service Timer1Irq s = fire_triacs s"

fun service_all :: "irq list \<Rightarrow> state \<Rightarrow> fault + state" where
  "service_all [] s = Inr s"
| "service_all (q # qs) s = and_then (service q s) (service_all qs)"

subsection \<open>The period estimator\<close>

text \<open>
  The \<^verbatim>\<open>while ( F < 4 )\<close> loop of \<^verbatim>\<open>measure_half_period\<close>, from pass \<open>k\<close> of the environment
  on. The result \<open>None\<close> means that the loop never ends.
\<close>

partial_function (option) wait_loop ::
    "(nat \<Rightarrow> poll) \<Rightarrow> nat \<Rightarrow> u8 \<Rightarrow> state \<Rightarrow> (fault + state) option" where
  "wait_loop env k F s =
     (if F < 4 then
        (case service_all (pending (env k)) s of
           Inl e \<Rightarrow> Some (Inl e)
         | Inr s1 \<Rightarrow>
             if zero_cross s1 then
               (if unat F < length (ZeroXTime s1) then
                  (case service_all (late (env k))
                          (s1\<lparr>ZeroXTime := (ZeroXTime s1)[unat F := clock (env k)]\<rparr>) of
                     Inl e \<Rightarrow> Some (Inl e)
                   | Inr s2 \<Rightarrow> wait_loop env (k + 1) (F + 1) (s2\<lparr>zero_cross := False\<rparr>))
                else Some (Inl OutOfBounds))
             else wait_loop env (k + 1) F s1)
      else Some (Inr s))"

definition measure_half_period :: "(nat \<Rightarrow> poll) \<Rightarrow> state \<Rightarrow> (fault + state) option" where
  "measure_half_period env s =
     (case wait_loop env 0 0 (s\<lparr>zero_cross := False\<rparr>) of
        None \<Rightarrow> None
      | Some (Inl e) \<Rightarrow> Some (Inl e)
      | Some (Inr s1) \<Rightarrow>
          (if 3 < length (ZeroXTime s1) then
             (let s2 = s1\<lparr>DimStep :=
                         (((ZeroXTime s1 ! 1 - ZeroXTime s1 ! 0)
                           + (ZeroXTime s1 ! 2 - ZeroXTime s1 ! 1)
                           + (ZeroXTime s1 ! 3 - ZeroXTime s1 ! 2)) div 3) div DimRes\<rparr>;
                  s3 = emit (Timer1_attachInterrupt (DimStep s2)) s2
              in Some (Inr (s3\<lparr>ResetPeriod := ResetPeriod s3 + PeriodResync\<rparr>)))
           else Some (Inl OutOfBounds)))"


subsection \<open>The main loop\<close>

text \<open>
  One pass through \<^verbatim>\<open>loop()\<close>. The environment gives the value of \<^verbatim>\<open>millis()\<close>, the passes
  of the busy wait (used when the measurement runs), and the result of each call of
  \<^verbatim>\<open>analogRead\<close>: \<open>analogRead env p n\<close> is what the call number \<open>n\<close> of this pass
  (0 to 3, in program order) returns when it reads input \<open>p\<close>. Handlers run inside a pass
  only during the busy wait. A handler that runs between the other statements of a pass
  is a step of its own (\<open>service\<close>); it writes none of \<^verbatim>\<open>FireTriac\<close>, \<^verbatim>\<open>ResetPeriod\<close>,
  \<^verbatim>\<open>DimStep\<close> and \<^verbatim>\<open>ZeroXTime\<close> (lemma \<open>service_all_fields\<close> below).
\<close>

record loop_env =
  millis :: u32
  polls :: "nat \<Rightarrow> poll"
  analogRead :: "nat \<Rightarrow> nat \<Rightarrow> i16"

text \<open>The index expression \<^verbatim>\<open>(DimRes * analogRead(p)) / 1024\<close>, computed in \<^verbatim>\<open>unsigned long\<close>.\<close>

definition table_index :: "i16 \<Rightarrow> u32" where
  "table_index r = (DimRes * scast r) div 1024"

definition PowerMap_at :: "u32 \<Rightarrow> fault + u8" where
  "PowerMap_at i = (if unat i < length PowerMap then Inr (PowerMap ! unat i) else Inl OutOfBounds)"

text \<open>The assignment \<^verbatim>\<open>FireTriac[i] = PowerMap[(DimRes * r) / 1024]\<close> for a sample \<open>r\<close>.\<close>

definition set_FireTriac :: "nat \<Rightarrow> i16 \<Rightarrow> state \<Rightarrow> fault + state" where
  "set_FireTriac i r s =
     and_then (PowerMap_at (table_index r))
       (\<lambda>v. if i < length (FireTriac s)
             then Inr (s\<lparr>FireTriac := (FireTriac s)[i := ucast v]\<rparr>)
             else Inl OutOfBounds)"

definition loop :: "loop_env \<Rightarrow> state \<Rightarrow> (fault + state) option" where
  "loop env s =
     (case (if ResetPeriod s \<le> millis env then measure_half_period (polls env) s
            else Some (Inr s)) of
        None \<Rightarrow> None
      | Some r \<Rightarrow>
          Some (and_then r (\<lambda>s0.
                and_then (set_FireTriac 0 (analogRead env 0 0) s0) (\<lambda>s1.
                and_then (set_FireTriac 1 (analogRead env 1 1) s1) (\<lambda>s2.
                and_then (set_FireTriac 2 (analogRead env 0 2) s2) (\<lambda>s3.
                and_then (set_FireTriac 3 (analogRead env 1 3) s3) (\<lambda>s4.
                Inr (s4\<lparr>DimStepCounter := DimStepCounter s4 + 1\<rparr>))))))))"

subsection \<open>Notions used by the statements\<close>

text \<open>
  A crossing is detected in pass \<open>k\<close> of the busy wait when that pass runs the handler
  \<^verbatim>\<open>zero_cross_detect\<close> at least once before its test of \<^verbatim>\<open>zero_cross\<close>. The flag is clear
  at the start of every pass, so these are the passes whose test finds the flag set
  (lemmas \<open>wait_loop_returns\<close> and \<open>wait_loop_needs_detections\<close>). A pass detects at most
  one crossing, however often the handler runs in it.
\<close>

definition detected :: "(nat \<Rightarrow> poll) \<Rightarrow> nat \<Rightarrow> bool" where
  "detected env k = (ZeroCrossIrq \<in> set (pending (env k)))"

text \<open>
  \<open>stamps env k n\<close>: the values of \<^verbatim>\<open>micros()\<close> in those of the passes \<open>k\<close>, ...,
  \<open>k + n - 1\<close> that detect a crossing, in order. Its length is the number of these
  passes.
\<close>

fun stamps :: "(nat \<Rightarrow> poll) \<Rightarrow> nat \<Rightarrow> nat \<Rightarrow> u32 list" where
  "stamps env k 0 = []"
| "stamps env k (Suc n) =
     (if detected env k then [clock (env k)] else []) @ stamps env (Suc k) n"

text \<open>
  \<open>crossings env k n\<close>: how often the zero-cross signal is raised, that is how often the
  handler \<^verbatim>\<open>zero_cross_detect\<close> runs, in the passes \<open>k\<close>, ..., \<open>k + n - 1\<close>: the runs before
  the test of a pass and, when the test succeeds, the runs between the test and
  \<^verbatim>\<open>zero_cross = 0\<close>.
\<close>

fun crossings :: "(nat \<Rightarrow> poll) \<Rightarrow> nat \<Rightarrow> nat \<Rightarrow> nat" where
  "crossings env k 0 = 0"
| "crossings env k (Suc n) =
     count_list (pending (env k)) ZeroCrossIrq
     + (if detected env k then count_list (late (env k)) ZeroCrossIrq else 0)
     + crossings env (Suc k) n"

subsection \<open>The program as a whole\<close>

text \<open>
  After \<^verbatim>\<open>setup()\<close> the program is a sequence of runs of its three entry points: the
  zero-cross handler, the Timer1 handler \<^verbatim>\<open>fire_triacs\<close>, and a pass through \<^verbatim>\<open>loop()\<close>
  with its environment.
\<close>

datatype action = Crossing | Tick | Pass loop_env

fun step :: "action \<Rightarrow> state \<Rightarrow> (fault + state) option" where
  "step Crossing s = Some (Inr (zero_cross_detect s))"
| "step Tick s = Some (fire_triacs s)"
| "step (Pass env) s = loop env s"

fun run :: "action list \<Rightarrow> state \<Rightarrow> (fault + state) option" where
  "run [] s = Some (Inr s)"
| "run (a # as) s =
     (case step a s of
        None \<Rightarrow> None
      | Some (Inl e) \<Rightarrow> Some (Inl e)
      | Some (Inr s') \<Rightarrow> run as s')"

subsection \<open>Example environments\<close>

text \<open>
  A mains supply with a crossing every 8333 microseconds: the passes with an odd number
  see a crossing, the passes with an even number see a tick of Timer1.
\<close>

definition mains_passes :: "nat \<Rightarrow> poll" where
  "mains_passes k =
     \<lparr>pending = (if even k then [Timer1Irq] else [ZeroCrossIrq]),
      clock = 8333 * word_of_nat (k div 2), late = []\<rparr>"

text \<open>No mains: Timer1 ticks, and no crossing ever.\<close>

definition no_mains :: "nat \<Rightarrow> poll" where
  "no_mains k = \<lparr>pending = [Timer1Irq], clock = word_of_nat k, late = []\<rparr>"

text \<open>
  Four runs of the zero-cross handler in two passes: two before the test of pass 0 and
  two before the test of pass 1, and none afterwards.
\<close>

definition twice_env :: "nat \<Rightarrow> poll" where
  "twice_env k =
     \<lparr>pending = (if k < 2 then [ZeroCrossIrq, ZeroCrossIrq] else []),
      clock = 8333 * word_of_nat k, late = []\<rparr>"

text \<open>
  Four runs of the zero-cross handler in two passes: in pass 0 and in pass 1 one before
  the test and one between the test and \<^verbatim>\<open>zero_cross = 0\<close>, and none afterwards.
\<close>

definition late_env :: "nat \<Rightarrow> poll" where
  "late_env k =
     \<lparr>pending = (if k < 2 then [ZeroCrossIrq] else []),
      clock = 8333 * word_of_nat k,
      late = (if k < 2 then [ZeroCrossIrq] else [])\<rparr>"

text \<open>
  A pass through \<^verbatim>\<open>loop()\<close> one second after the start, and one six seconds after it;
  input 0 reads 512 and input 1 reads 1023.
\<close>

definition quiet_pass :: loop_env where
  "quiet_pass =
     \<lparr>millis = 1000, polls = mains_passes,
      analogRead = (\<lambda>p n. if p = 0 then 512 else 1023)\<rparr>"

definition resync_pass :: loop_env where
  "resync_pass =
     \<lparr>millis = 6000, polls = mains_passes,
      analogRead = (\<lambda>p n. if p = 0 then 512 else 1023)\<rparr>"

text \<open>A pass through \<^verbatim>\<open>loop()\<close> in which both inputs read 0, the lowest level.\<close>

definition dark_pass :: loop_env where
  "dark_pass = \<lparr>millis = 1000, polls = mains_passes, analogRead = (\<lambda>p n. 0)\<rparr>"

text \<open>
  The state after the first measurement under \<open>mains_passes\<close>, started from the initial
  values of the globals: four ticks of Timer1, each of which finds all four fire-steps
  equal to the step counter 0 and writes HIGH to the four pins, then the request to the
  timer.
\<close>

definition after_boot :: state where
  "after_boot =
     \<lparr>ZeroXTime = [0, 8333, 16666, 24999], DimStep = 32, ResetPeriod = 6000,
      DimStepCounter = 0, FireTriac = [0, 0, 0, 0], zero_cross = False,
      trace =
        [DigitalWrite 3 HIGH, DigitalWrite 5 HIGH, DigitalWrite 6 HIGH, DigitalWrite 7 HIGH,
         DigitalWrite 3 HIGH, DigitalWrite 5 HIGH, DigitalWrite 6 HIGH, DigitalWrite 7 HIGH,
         DigitalWrite 3 HIGH, DigitalWrite 5 HIGH, DigitalWrite 6 HIGH, DigitalWrite 7 HIGH,
         DigitalWrite 3 HIGH, DigitalWrite 5 HIGH, DigitalWrite 6 HIGH, DigitalWrite 7 HIGH,
         Timer1_attachInterrupt 32]\<rparr>"

text \<open>
  A half-cycle at the lowest level. A pass through \<^verbatim>\<open>loop()\<close> publishes the fire-step 255
  for all channels, a crossing resets the step counter, and Timer1 ticks. In the first
  schedule a pass through \<^verbatim>\<open>loop()\<close> runs after the tick number 255; in the second only
  the handlers run.
\<close>

definition dark_half_cycle :: "action list" where
  "dark_half_cycle =
     [Pass dark_pass, Crossing] @ replicate 255 Tick @ [Pass dark_pass] @ replicate 6 Tick"

definition dark_half_cycle_ticks_only :: "action list" where
  "dark_half_cycle_ticks_only = [Pass dark_pass, Crossing] @ replicate 256 Tick"

section \<open>Properties\<close>

subsection \<open>Words and the table\<close>

lemma TriacPin_length: "length TriacPin = 4"
  by (simp add: TriacPin_def)

lemma PowerMap_length: "length PowerMap = 256"
  by (simp add: PowerMap_def)

lemma and_then_Inr [simp]: "and_then (Inr x) f = f x"
  by (simp add: and_then_def)

lemma and_then_Inl [simp]: "and_then (Inl e) f = Inl e"
  by (simp add: and_then_def)

lemma uint_scast_nonneg:
  assumes "0 \<le> sint (r::i16)"
  shows "uint (scast r :: u32) = sint r"
proof -
  have up: "sint (scast r :: u32) = sint r"
    by (rule sint_up_scast) (simp add: is_up)
  have "sint r < 2 ^ 15" using sint_lt [of r] by simp
  then have small: "sint r < 2 ^ 32" by simp
  have "uint (scast r :: u32) = take_bit 32 (sint (scast r :: u32))"
    using uint_sint [of "scast r :: u32"] by simp
  also have "\<dots> = take_bit 32 (sint r)"
    by (simp only: up)
  also have "\<dots> = sint r"
    using assms small by (rule take_bit_int_eq_self)
  finally show ?thesis .
qed

lemma unat_ucast_u8: "unat (ucast (v::u8) :: u32) = unat v"
proof -
  have "unat v < 2 ^ 8" using unsigned_less [of v] by simp
  then have "unat v < 2 ^ 32" by simp
  then show ?thesis
    by (simp add: unsigned_ucast_eq take_bit_nat_eq_self)
qed

lemma ucast_u8_less: "(ucast (v::u8) :: u32) < DimRes"
proof -
  have "unat v < 2 ^ 8" using unsigned_less [of v] by simp
  then show ?thesis
    by (simp add: word_less_nat_alt unat_ucast_u8 DimRes_def)
qed

lemma uint_table_index:
  assumes "0 \<le> sint r" and "sint r \<le> 1023"
  shows "uint (table_index r) = (256 * sint r) div 1024"
proof -
  have "uint (DimRes * scast r :: u32) = 256 * sint r"
    using assms
    by (simp add: uint_word_ariths uint_scast_nonneg DimRes_def take_bit_int_eq_self)
  then show ?thesis
    by (simp add: table_index_def uint_div)
qed

lemma table_index_bound:
  assumes "0 \<le> sint r" and "sint r \<le> 1023"
  shows "unat (table_index r) < 256"
proof -
  have "(256 * sint r) div 1024 < 256" using assms by simp
  then have "uint (table_index r) < 256" using uint_table_index [OF assms] by simp
  then have "nat (uint (table_index r)) < 256" by linarith
  then show ?thesis by (simp only: unat_eq_nat_uint)
qed

lemma ge_chain:
  "sorted_wrt (\<lambda>a b. b \<le> a) ((x::u8) # y # zs) =
     (y \<le> x \<and> sorted_wrt (\<lambda>a b. b \<le> a) (y # zs))"
  by (rule sorted_wrt2) (auto simp: transp_def)

lemma PowerMap_sorted: "sorted_wrt (\<lambda>a b. b \<le> a) PowerMap"
  unfolding PowerMap_def by (simp only: ge_chain) simp

subsection \<open>The firing actuator\<close>

text \<open>What one call of \<^verbatim>\<open>fire_triac\<close> for a channel of the program writes to the outputs.\<close>

lemma fire_triac_pulse:
  assumes "0 \<le> n" and "n < 4" and "length (FireTriac s) = 4"
  shows "fire_triac n s = Inr (s\<lparr>trace := trace s @
           (if FireTriac s ! nat n = DimStepCounter s then
              (if FireTriac s ! nat n \<noteq> DimRes
               then [DigitalWrite (TriacPin ! nat n) HIGH] else []) @
              (if FireTriac s ! nat n \<noteq> DimRes \<and> FireTriac s ! nat n \<noteq> 0
               then [DelayMicroseconds 2] else []) @
              (if FireTriac s ! nat n \<noteq> 0
               then [DigitalWrite (TriacPin ! nat n) LOW] else [])
            else [])\<rparr>)"
proof -
  from assms have "nat n < 4" by linarith
  with assms show ?thesis
    by (simp add: fire_triac_def emit_def TriacPin_length)
qed

text \<open>
  C1. When the fire-step \<open>FireTriac[n]\<close> of a channel differs from the step counter, a call
  of \<^verbatim>\<open>fire_triac\<close> changes nothing. When they are equal, the call writes HIGH to the pin of
  the channel if the fire-step is not \<open>DimRes\<close>, and writes LOW to it if the fire-step is
  not 0. For a fire-step strictly between 0 and \<open>DimRes\<close> the call writes HIGH, waits 2
  microseconds and writes LOW; for the fire-step 0 it writes HIGH only, so the output stays
  asserted; for the fire-step \<open>DimRes\<close> it writes LOW only, so the output is never asserted.
\<close>

theorem fire_triac_four_way:
  assumes "0 \<le> n" and "n < 4" and "length (FireTriac s) = 4"
  shows "(FireTriac s ! nat n \<noteq> DimStepCounter s \<longrightarrow> fire_triac n s = Inr s) \<and>
         (FireTriac s ! nat n = DimStepCounter s \<longrightarrow>
            (\<exists>evs. fire_triac n s = Inr (s\<lparr>trace := trace s @ evs\<rparr>) \<and>
               (FireTriac s ! nat n \<noteq> DimRes \<longrightarrow>
                  DigitalWrite (TriacPin ! nat n) HIGH \<in> set evs) \<and>
               (FireTriac s ! nat n \<noteq> 0 \<longrightarrow>
                  DigitalWrite (TriacPin ! nat n) LOW \<in> set evs) \<and>
               (0 < FireTriac s ! nat n \<and> FireTriac s ! nat n < DimRes \<longrightarrow>
                  evs = [DigitalWrite (TriacPin ! nat n) HIGH, DelayMicroseconds 2,
                         DigitalWrite (TriacPin ! nat n) LOW]) \<and>
               (FireTriac s ! nat n = 0 \<longrightarrow> evs = [DigitalWrite (TriacPin ! nat n) HIGH]) \<and>
               (FireTriac s ! nat n = DimRes \<longrightarrow>
                  evs = [DigitalWrite (TriacPin ! nat n) LOW])))"
proof -
  have zero_ne: "(0::u32) \<noteq> DimRes" by (simp add: DimRes_def)
  note pulse = fire_triac_pulse [OF assms]
  show ?thesis
  proof (intro conjI impI)
    assume "FireTriac s ! nat n \<noteq> DimStepCounter s"
    with pulse show "fire_triac n s = Inr s" by simp
  next
    assume eq: "FireTriac s ! nat n = DimStepCounter s"
    consider (full) "DimStepCounter s = 0" | (off) "DimStepCounter s = DimRes"
      | (mid) "DimStepCounter s \<noteq> 0" "DimStepCounter s \<noteq> DimRes" by blast
    then show "\<exists>evs. fire_triac n s = Inr (s\<lparr>trace := trace s @ evs\<rparr>) \<and>
               (FireTriac s ! nat n \<noteq> DimRes \<longrightarrow>
                  DigitalWrite (TriacPin ! nat n) HIGH \<in> set evs) \<and>
               (FireTriac s ! nat n \<noteq> 0 \<longrightarrow>
                  DigitalWrite (TriacPin ! nat n) LOW \<in> set evs) \<and>
               (0 < FireTriac s ! nat n \<and> FireTriac s ! nat n < DimRes \<longrightarrow>
                  evs = [DigitalWrite (TriacPin ! nat n) HIGH, DelayMicroseconds 2,
                         DigitalWrite (TriacPin ! nat n) LOW]) \<and>
               (FireTriac s ! nat n = 0 \<longrightarrow> evs = [DigitalWrite (TriacPin ! nat n) HIGH]) \<and>
               (FireTriac s ! nat n = DimRes \<longrightarrow>
                  evs = [DigitalWrite (TriacPin ! nat n) LOW])"
    proof cases
      case full
      with pulse eq zero_ne show ?thesis
        by (intro exI [of _ "[DigitalWrite (TriacPin ! nat n) HIGH]"]) simp
    next
      case off
      with pulse eq zero_ne show ?thesis
        by (intro exI [of _ "[DigitalWrite (TriacPin ! nat n) LOW]"]) simp
    next
      case mid
      with pulse eq show ?thesis
        by (intro exI [of _ "[DigitalWrite (TriacPin ! nat n) HIGH, DelayMicroseconds 2,
                         DigitalWrite (TriacPin ! nat n) LOW]"]) simp
    qed
  qed
qed

theorem fire_triac_four_way_witness:
  "(0::int) \<le> 0 \<and> (0::int) < 4 \<and>
   length (FireTriac (init_state\<lparr>FireTriac := [128, 0, 256, 7], DimStepCounter := 128\<rparr>)) = 4 \<and>
   fire_triac 0 (init_state\<lparr>FireTriac := [128, 0, 256, 7], DimStepCounter := 128\<rparr>) =
     Inr (init_state\<lparr>FireTriac := [128, 0, 256, 7], DimStepCounter := 128,
           trace := [DigitalWrite 3 HIGH, DelayMicroseconds 2, DigitalWrite 3 LOW]\<rparr>)"
  using fire_triac_four_way
          [of 0 "init_state\<lparr>FireTriac := [128, 0, 256, 7], DimStepCounter := 128\<rparr>"]
  by (simp add: init_state_def TriacPin_def DimRes_def)

subsection \<open>The power curve table\<close>



text \<open>
  C4. The table does not increase: for levels \<open>L1 < L2\<close> below 256, the entry for \<open>L2\<close> is
  at most the entry for \<open>L1\<close>.
\<close>

theorem PowerMap_nonincreasing:
  "\<forall>L1 L2. L1 < L2 \<and> L2 < 256 \<longrightarrow> PowerMap ! L2 \<le> PowerMap ! L1"
  using PowerMap_sorted by (simp add: sorted_wrt_iff_nth_less PowerMap_length)

theorem PowerMap_nonincreasing_witness:
  "(3::nat) < 200 \<and> (200::nat) < 256 \<and> PowerMap ! 200 \<le> PowerMap ! 3 \<and>
   PowerMap ! 200 = 78 \<and> PowerMap ! 3 = 237"
  using PowerMap_nonincreasing by (simp add: PowerMap_def)

subsection \<open>The table index\<close>

text \<open>
  C8. For a sample \<open>r\<close> between 0 and 1023, the index \<^verbatim>\<open>(DimRes * r) / 1024\<close> is
  \<open>256 * r div 1024\<close>, it is below \<open>DimRes\<close> and below the length of the table, so the read of
  \<^verbatim>\<open>PowerMap\<close> is inside the table and the assignment to \<^verbatim>\<open>FireTriac[i]\<close> stores that entry.
\<close>

theorem table_index_in_bounds:
  assumes "0 \<le> sint r" and "sint r \<le> 1023"
  shows "uint (table_index r) = (256 * sint r) div 1024 \<and>
         table_index r < DimRes \<and>
         unat (table_index r) < length PowerMap \<and>
         PowerMap_at (table_index r) = Inr (PowerMap ! unat (table_index r)) \<and>
         (i < length (FireTriac s) \<longrightarrow>
            set_FireTriac i r s =
              Inr (s\<lparr>FireTriac := (FireTriac s)[i := ucast (PowerMap ! unat (table_index r))]\<rparr>))"
proof -
  note b = table_index_bound [OF assms]
  then have "table_index r < DimRes"
    by (simp add: word_less_nat_alt DimRes_def)
  moreover have "PowerMap_at (table_index r) = Inr (PowerMap ! unat (table_index r))"
    using b by (simp add: PowerMap_at_def PowerMap_length)
  ultimately show ?thesis
    using b uint_table_index [OF assms] by (simp add: set_FireTriac_def PowerMap_length)
qed

theorem table_index_in_bounds_witness:
  "0 \<le> sint (1023 :: i16) \<and> sint (1023 :: i16) \<le> 1023 \<and> table_index 1023 = 255 \<and>
   PowerMap_at (table_index 1023) = Inr 0 \<and>
   set_FireTriac 2 1023 (init_state\<lparr>FireTriac := [9, 9, 9, 9]\<rparr>) =
     Inr (init_state\<lparr>FireTriac := [9, 9, 0, 9]\<rparr>)"
  using table_index_in_bounds [of 1023 2 "init_state\<lparr>FireTriac := [9, 9, 9, 9]\<rparr>"]
  by (simp add: table_index_def DimRes_def PowerMap_def init_state_def)

subsection \<open>The interrupt handlers\<close>

text \<open>
  With four fire-steps in \<^verbatim>\<open>FireTriac\<close>, the handlers never fault; they leave the timestamps,
  the step duration, the deadline and the fire-steps alone, and only \<^verbatim>\<open>zero_cross_detect\<close>
  sets the flag.
\<close>

lemma fire_loop_fields:
  "0 \<le> i \<Longrightarrow> length (FireTriac s) = 4 \<Longrightarrow>
     \<exists>s'. fire_loop i s = Inr s' \<and> ZeroXTime s' = ZeroXTime s \<and> DimStep s' = DimStep s \<and>
          ResetPeriod s' = ResetPeriod s \<and> FireTriac s' = FireTriac s \<and>
          DimStepCounter s' = DimStepCounter s \<and> zero_cross s' = zero_cross s"
proof (induction i s rule: fire_loop.induct)
  case (1 i s)
  show ?case
  proof (cases "i < 4")
    case True
    let ?s1 = "s\<lparr>trace := trace s @
           (if FireTriac s ! nat i = DimStepCounter s then
              (if FireTriac s ! nat i \<noteq> DimRes then [DigitalWrite (TriacPin ! nat i) HIGH] else []) @
              (if FireTriac s ! nat i \<noteq> DimRes \<and> FireTriac s ! nat i \<noteq> 0 then [DelayMicroseconds 2] else []) @
              (if FireTriac s ! nat i \<noteq> 0 then [DigitalWrite (TriacPin ! nat i) LOW] else [])
            else [])\<rparr>"
    have ft: "fire_triac i s = Inr ?s1"
      using "1.prems" True by (intro fire_triac_pulse) simp_all
    have "\<exists>s'. fire_loop (i + 1) ?s1 = Inr s' \<and> ZeroXTime s' = ZeroXTime ?s1 \<and> DimStep s' = DimStep ?s1 \<and>
          ResetPeriod s' = ResetPeriod ?s1 \<and> FireTriac s' = FireTriac ?s1 \<and>
          DimStepCounter s' = DimStepCounter ?s1 \<and> zero_cross s' = zero_cross ?s1"
      using "1.prems" by (intro "1.IH" [OF True]) simp_all
    then obtain s' where "fire_loop (i + 1) ?s1 = Inr s'" "ZeroXTime s' = ZeroXTime s" "DimStep s' = DimStep s"
          "ResetPeriod s' = ResetPeriod s" "FireTriac s' = FireTriac s"
          "DimStepCounter s' = DimStepCounter s" "zero_cross s' = zero_cross s"
      by auto
    moreover have "fire_loop i s = fire_loop (i + 1) ?s1"
      using True ft by (subst fire_loop.simps) simp
    ultimately show ?thesis by simp
  next
    case False
    then show ?thesis by (subst fire_loop.simps) simp
  qed
qed

lemma fire_triacs_fields:
  assumes "length (FireTriac s) = 4"
  shows "\<exists>s'. fire_triacs s = Inr s' \<and> ZeroXTime s' = ZeroXTime s \<and> DimStep s' = DimStep s \<and>
          ResetPeriod s' = ResetPeriod s \<and> FireTriac s' = FireTriac s \<and>
          DimStepCounter s' = DimStepCounter s + 1 \<and> zero_cross s' = zero_cross s"
  using fire_loop_fields [of 0 s] assms by (auto simp: fire_triacs_def)

lemma service_fields:
  assumes "length (FireTriac s) = 4"
  shows "\<exists>s'. service q s = Inr s' \<and> ZeroXTime s' = ZeroXTime s \<and> DimStep s' = DimStep s \<and>
          ResetPeriod s' = ResetPeriod s \<and> FireTriac s' = FireTriac s \<and>
          zero_cross s' = (zero_cross s \<or> q = ZeroCrossIrq)"
proof (cases q)
  case ZeroCrossIrq
  then show ?thesis by (simp add: zero_cross_detect_def)
next
  case Timer1Irq
  then show ?thesis using fire_triacs_fields [OF assms] by auto
qed

lemma service_all_fields:
  "length (FireTriac s) = 4 \<Longrightarrow>
     \<exists>s'. service_all qs s = Inr s' \<and> ZeroXTime s' = ZeroXTime s \<and> DimStep s' = DimStep s \<and>
          ResetPeriod s' = ResetPeriod s \<and> FireTriac s' = FireTriac s \<and>
          zero_cross s' = (zero_cross s \<or> ZeroCrossIrq \<in> set qs)"
proof (induction qs arbitrary: s)
  case Nil
  then show ?case by simp
next
  case (Cons q qs)
  from service_fields [OF Cons.prems, of q] obtain s1 where
    s1: "service q s = Inr s1" "ZeroXTime s1 = ZeroXTime s" "DimStep s1 = DimStep s"
        "ResetPeriod s1 = ResetPeriod s" "FireTriac s1 = FireTriac s"
        "zero_cross s1 = (zero_cross s \<or> q = ZeroCrossIrq)"
    by blast
  from s1 Cons.prems have "length (FireTriac s1) = 4" by simp
  from Cons.IH [OF this] obtain s' where
    "service_all qs s1 = Inr s'" "ZeroXTime s' = ZeroXTime s1" "DimStep s' = DimStep s1"
        "ResetPeriod s' = ResetPeriod s1" "FireTriac s' = FireTriac s1"
        "zero_cross s' = (zero_cross s1 \<or> ZeroCrossIrq \<in> set qs)"
    by blast
  with s1 show ?case by auto
qed

subsection \<open>The busy wait\<close>

text \<open>
  The loop counter \<open>F\<close> is a byte. The loop ends, with the timestamps of the detected
  crossings, when the passes from \<open>k\<close> on detect the \<open>4 - F\<close> crossings that are still
  missing, and it ends only then.
\<close>

lemma u8_lt4: "(F::u8) < 4 \<longleftrightarrow> unat F < 4"
  by (simp add: word_less_nat_alt)

lemma u8_suc: "(F::u8) < 4 \<Longrightarrow> unat (F + 1) = unat F + 1"
  by (simp add: word_less_nat_alt unat_word_ariths)

lemma wait_loop_done: "\<not> F < 4 \<Longrightarrow> wait_loop env k F s = Some (Inr s)"
  by (subst wait_loop.simps) simp

lemma wait_loop_returns:
  "length (ZeroXTime s) = 4 \<Longrightarrow> length (FireTriac s) = 4 \<Longrightarrow> \<not> zero_cross s \<Longrightarrow>
   unat F + length (stamps env k n) = 4 \<Longrightarrow>
     \<exists>s'. wait_loop env k F s = Some (Inr s') \<and>
          ZeroXTime s' = take (unat F) (ZeroXTime s) @ stamps env k n \<and>
          DimStep s' = DimStep s \<and> ResetPeriod s' = ResetPeriod s \<and> FireTriac s' = FireTriac s"
proof (induction n arbitrary: k F s)
  case 0
  then have "\<not> F < 4" by (simp add: u8_lt4)
  with 0 show ?case by (simp add: wait_loop_done)
next
  case (Suc n)
  show ?case
  proof (cases "F < 4")
    case False
    then have "\<not> unat F < 4" by (simp add: u8_lt4)
    with Suc.prems(4) have "unat F = 4" "length (stamps env k (Suc n)) = 0"
      by arith+
    then have "unat F = 4" "stamps env k (Suc n) = []"
      by (simp_all only: length_0_conv)
    with False Suc.prems(1) show ?thesis by (simp add: wait_loop_done del: stamps.simps)
  next
    case True
    then have Flt: "unat F < 4" by (simp add: u8_lt4)
    from service_all_fields [OF Suc.prems(2), of "pending (env k)"] obtain s1 where
      s1: "service_all (pending (env k)) s = Inr s1" "ZeroXTime s1 = ZeroXTime s"
          "DimStep s1 = DimStep s" "ResetPeriod s1 = ResetPeriod s" "FireTriac s1 = FireTriac s"
          "zero_cross s1 = (zero_cross s \<or> ZeroCrossIrq \<in> set (pending (env k)))"
      by blast
    with Suc.prems have zc: "zero_cross s1 = detected env k" by (simp add: detected_def)
    show ?thesis
    proof (cases "detected env k")
      case False
      with Suc.prems have "unat F + length (stamps env (Suc k) n) = 4" by simp
      from Suc.IH [OF _ _ _ this, of s1] s1 Suc.prems zc False obtain s' where
        "wait_loop env (Suc k) F s1 = Some (Inr s')"
        "ZeroXTime s' = take (unat F) (ZeroXTime s) @ stamps env (Suc k) n"
        "DimStep s' = DimStep s" "ResetPeriod s' = ResetPeriod s" "FireTriac s' = FireTriac s"
        by auto
      moreover have "wait_loop env k F s = wait_loop env (Suc k) F s1"
        using True s1 zc False by (subst wait_loop.simps) simp
      ultimately show ?thesis using False by simp
    next
      case det: True
      let ?s1u = "s1\<lparr>ZeroXTime := (ZeroXTime s1)[unat F := clock (env k)]\<rparr>"
      have "length (FireTriac ?s1u) = 4" using s1 Suc.prems by simp
      from service_all_fields [OF this, of "late (env k)"] obtain s2 where
        s2: "service_all (late (env k)) ?s1u = Inr s2"
            "ZeroXTime s2 = (ZeroXTime s)[unat F := clock (env k)]"
            "DimStep s2 = DimStep s" "ResetPeriod s2 = ResetPeriod s" "FireTriac s2 = FireTriac s"
        using s1 by auto
      let ?s3 = "s2\<lparr>zero_cross := False\<rparr>"
      have len: "unat (F + 1) + length (stamps env (Suc k) n) = 4"
        using Suc.prems det True by (simp add: u8_suc)
      from Suc.IH [OF _ _ _ len, of ?s3] s2 Suc.prems obtain s' where
        s': "wait_loop env (Suc k) (F + 1) ?s3 = Some (Inr s')"
        "ZeroXTime s' = take (unat (F + 1)) ((ZeroXTime s)[unat F := clock (env k)]) @ stamps env (Suc k) n"
        "DimStep s' = DimStep s" "ResetPeriod s' = ResetPeriod s" "FireTriac s' = FireTriac s"
        by auto
      have "take (unat (F + 1)) ((ZeroXTime s)[unat F := clock (env k)])
              = take (unat F) (ZeroXTime s) @ [clock (env k)]"
        using Flt Suc.prems(1) True by (simp add: u8_suc take_Suc_conv_app_nth)
      moreover have "wait_loop env k F s = wait_loop env (Suc k) (F + 1) ?s3"
        using True s1 s2 zc det Flt Suc.prems(1) by (subst wait_loop.simps) simp
      ultimately show ?thesis using s' det by simp
    qed
  qed
qed

lemma wait_loop_needs_detections:
  assumes "wait_loop env k F s = Some r"
  shows "length (ZeroXTime s) = 4 \<longrightarrow> length (FireTriac s) = 4 \<longrightarrow> \<not> zero_cross s \<longrightarrow>
         unat F \<le> 4 \<longrightarrow> (\<exists>n. unat F + length (stamps env k n) = 4)"
proof (rule wait_loop.raw_induct [where P = "\<lambda>env k F s r.
         length (ZeroXTime s) = 4 \<longrightarrow> length (FireTriac s) = 4 \<longrightarrow> \<not> zero_cross s \<longrightarrow>
         unat F \<le> 4 \<longrightarrow> (\<exists>n. unat F + length (stamps env k n) = 4)", OF _ assms])
  fix f :: "(nat \<Rightarrow> poll) \<Rightarrow> nat \<Rightarrow> u8 \<Rightarrow> state \<Rightarrow> (fault + state) option"
    and env k F s r
  assume IH: "\<And>env k F s r. f env k F s = Some r \<Longrightarrow>
         length (ZeroXTime s) = 4 \<longrightarrow> length (FireTriac s) = 4 \<longrightarrow> \<not> zero_cross s \<longrightarrow>
         unat F \<le> 4 \<longrightarrow> (\<exists>n. unat F + length (stamps env k n) = 4)"
    and body: "(if F < 4 then
        (case service_all (pending (env k)) s of
           Inl e \<Rightarrow> Some (Inl e)
         | Inr s1 \<Rightarrow>
             if zero_cross s1 then
               (if unat F < length (ZeroXTime s1) then
                  (case service_all (late (env k))
                          (s1\<lparr>ZeroXTime := (ZeroXTime s1)[unat F := clock (env k)]\<rparr>) of
                     Inl e \<Rightarrow> Some (Inl e)
                   | Inr s2 \<Rightarrow> f env (k + 1) (F + 1) (s2\<lparr>zero_cross := False\<rparr>))
                else Some (Inl OutOfBounds))
             else f env (k + 1) F s1)
      else Some (Inr s)) = Some r"
  show "length (ZeroXTime s) = 4 \<longrightarrow> length (FireTriac s) = 4 \<longrightarrow> \<not> zero_cross s \<longrightarrow>
         unat F \<le> 4 \<longrightarrow> (\<exists>n. unat F + length (stamps env k n) = 4)"
  proof (intro impI)
    assume wf: "length (ZeroXTime s) = 4" "length (FireTriac s) = 4" "\<not> zero_cross s" "unat F \<le> 4"
    show "\<exists>n. unat F + length (stamps env k n) = 4"
    proof (cases "F < 4")
      case False
      then have "\<not> unat F < 4" by (simp add: u8_lt4)
      with wf have "unat F + length (stamps env k 0) = 4" by simp
      then show ?thesis by blast
    next
      case True
      then have Flt: "unat F < 4" by (simp add: u8_lt4)
      from service_all_fields [OF wf(2), of "pending (env k)"] obtain s1 where
        s1: "service_all (pending (env k)) s = Inr s1" "ZeroXTime s1 = ZeroXTime s"
            "FireTriac s1 = FireTriac s"
            "zero_cross s1 = (zero_cross s \<or> ZeroCrossIrq \<in> set (pending (env k)))"
        by blast
      with wf have zc: "zero_cross s1 = detected env k" by (simp add: detected_def)
      show ?thesis
      proof (cases "detected env k")
        case False
        with body True s1 zc have "f env (k + 1) F s1 = Some r" by simp
        from IH [OF this] s1 wf zc False obtain n where
          "unat F + length (stamps env (Suc k) n) = 4" by auto
        with False have "unat F + length (stamps env k (Suc n)) = 4" by simp
        then show ?thesis by blast
      next
        case det: True
        let ?s1u = "s1\<lparr>ZeroXTime := (ZeroXTime s1)[unat F := clock (env k)]\<rparr>"
        have "length (FireTriac ?s1u) = 4" using s1 wf by simp
        from service_all_fields [OF this, of "late (env k)"] obtain s2 where
          s2: "service_all (late (env k)) ?s1u = Inr s2"
              "ZeroXTime s2 = (ZeroXTime s)[unat F := clock (env k)]" "FireTriac s2 = FireTriac s"
          using s1 by auto
        let ?s3 = "s2\<lparr>zero_cross := False\<rparr>"
        from body True s1 s2 zc det Flt wf
        have "f env (k + 1) (F + 1) ?s3 = Some r" by simp
        from IH [OF this] s2 wf Flt True obtain n where
          "unat (F + 1) + length (stamps env (Suc k) n) = 4" by (auto simp: u8_suc)
        with det True have "unat F + length (stamps env k (Suc n)) = 4" by (simp add: u8_suc)
        then show ?thesis by blast
      qed
    qed
  qed
qed

lemma stamps_reach:
  "4 \<le> m + length (stamps env k n) \<Longrightarrow> m \<le> 4 \<Longrightarrow> \<exists>n'. m + length (stamps env k n') = 4"
proof (induction n arbitrary: k m)
  case 0
  then have "m + length (stamps env k 0) = 4" by simp
  then show ?case by blast
next
  case (Suc n)
  show ?case
  proof (cases "m = 4")
    case True
    then have "m + length (stamps env k 0) = 4" by simp
    then show ?thesis by blast
  next
    case False
    with Suc.prems have m: "m < 4" by simp
    show ?thesis
    proof (cases "detected env k")
      case True
      with Suc.prems have "4 \<le> Suc m + length (stamps env (Suc k) n)" by simp
      from Suc.IH [OF this] m obtain n' where "Suc m + length (stamps env (Suc k) n') = 4"
        by auto
      with True have "m + length (stamps env k (Suc n')) = 4" by simp
      then show ?thesis by blast
    next
      case False
      with Suc.prems have "4 \<le> m + length (stamps env (Suc k) n)" by simp
      from Suc.IH [OF this Suc.prems(2)] obtain n' where "m + length (stamps env (Suc k) n') = 4"
        by auto
      with False have "m + length (stamps env k (Suc n')) = 4" by simp
      then show ?thesis by blast
    qed
  qed
qed

lemma stamps_none: "\<forall>j. \<not> detected env j \<Longrightarrow> stamps env k n = []"
  by (induction n arbitrary: k) simp_all

lemma stamps_bound:
  "\<forall>j. detected env j \<longrightarrow> j < m \<Longrightarrow> length (stamps env k n) \<le> m - k"
proof (induction n arbitrary: k)
  case 0
  then show ?case by simp
next
  case (Suc n)
  from Suc.IH [OF Suc.prems, of "Suc k"] have ih: "length (stamps env (Suc k) n) \<le> m - Suc k" .
  show ?case
  proof (cases "detected env k")
    case True
    with Suc.prems have "k < m" by blast
    with ih True show ?thesis by simp
  next
    case False
    with ih show ?thesis by simp
  qed
qed

lemma crossings_eq_stamps:
  assumes "\<forall>j. count_list (pending (env j)) ZeroCrossIrq \<le> 1 \<and> ZeroCrossIrq \<notin> set (late (env j))"
  shows "crossings env k n = length (stamps env k n)"
proof (induction n arbitrary: k)
  case 0
  then show ?case by simp
next
  case (Suc n)
  from assms have one: "count_list (pending (env k)) ZeroCrossIrq \<le> 1"
    and none: "count_list (late (env k)) ZeroCrossIrq = 0"
    by (simp_all add: count_list_0_iff)
  have "count_list (pending (env k)) ZeroCrossIrq = (if detected env k then 1 else 0)"
  proof (cases "detected env k")
    case True
    then have "count_list (pending (env k)) ZeroCrossIrq \<noteq> 0"
      by (simp add: detected_def count_list_0_iff)
    with one True show ?thesis by simp
  next
    case False
    then show ?thesis by (simp add: detected_def count_list_0_iff)
  qed
  with none Suc.IH [of "Suc k"] show ?case by simp
qed

subsection \<open>The period estimator\<close>

text \<open>The result of the measurement in terms of the result of the busy wait.\<close>

lemma measure_half_period_after_wait:
  assumes "wait_loop env 0 0 (s\<lparr>zero_cross := False\<rparr>) = Some (Inr s1)"
    and "length (ZeroXTime s1) = 4"
  shows "measure_half_period env s =
           Some (Inr (s1\<lparr>DimStep :=
                         (((ZeroXTime s1 ! 1 - ZeroXTime s1 ! 0)
                           + (ZeroXTime s1 ! 2 - ZeroXTime s1 ! 1)
                           + (ZeroXTime s1 ! 3 - ZeroXTime s1 ! 2)) div 3) div DimRes,
                      trace := trace s1 @ [Timer1_attachInterrupt
                         ((((ZeroXTime s1 ! 1 - ZeroXTime s1 ! 0)
                           + (ZeroXTime s1 ! 2 - ZeroXTime s1 ! 1)
                           + (ZeroXTime s1 ! 3 - ZeroXTime s1 ! 2)) div 3) div DimRes)],
                      ResetPeriod := ResetPeriod s1 + PeriodResync\<rparr>))"
  using assms by (simp add: measure_half_period_def emit_def Let_def)

lemma measure_half_period_result:
  assumes "measure_half_period env s = Some (Inr s')"
  shows "DimStep s' = (((ZeroXTime s' ! 1 - ZeroXTime s' ! 0)
                           + (ZeroXTime s' ! 2 - ZeroXTime s' ! 1)
                           + (ZeroXTime s' ! 3 - ZeroXTime s' ! 2)) div 3) div DimRes \<and>
         (\<exists>evs. trace s' = evs @ [Timer1_attachInterrupt (DimStep s')])"
  using assms
  by (auto simp: measure_half_period_def emit_def Let_def
           split: option.splits sum.splits if_splits)

lemma measure_half_period_total:
  assumes "length (ZeroXTime s) = 4" and "length (FireTriac s) = 4"
    and "length (stamps env 0 n) = 4"
  shows "\<exists>s'. measure_half_period env s = Some (Inr s') \<and> ZeroXTime s' = stamps env 0 n \<and>
              ResetPeriod s' = ResetPeriod s + PeriodResync \<and> FireTriac s' = FireTriac s"
proof -
  let ?s0 = "s\<lparr>zero_cross := False\<rparr>"
  have "unat (0::u8) + length (stamps env 0 n) = 4" using assms(3) by simp
  from wait_loop_returns [of ?s0 0 env 0 n, OF _ _ _ this] assms(1,2)
  obtain s1 where s1: "wait_loop env 0 0 ?s0 = Some (Inr s1)" "ZeroXTime s1 = stamps env 0 n"
      "ResetPeriod s1 = ResetPeriod s" "FireTriac s1 = FireTriac s"
    by auto
  with assms(3) have "length (ZeroXTime s1) = 4" by simp
  from measure_half_period_after_wait [OF s1(1) this] s1 show ?thesis by simp
qed

lemma measure_half_period_needs_detections:
  assumes "length (ZeroXTime s) = 4" and "length (FireTriac s) = 4"
    and "measure_half_period env s = Some r"
  shows "\<exists>n. length (stamps env 0 n) = 4"
proof -
  from assms(3) obtain r1 where "wait_loop env 0 0 (s\<lparr>zero_cross := False\<rparr>) = Some r1"
    by (auto simp: measure_half_period_def split: option.splits)
  from wait_loop_needs_detections [OF this] assms(1,2) show ?thesis by simp
qed

lemma measure_half_period_blocks:
  assumes "length (ZeroXTime s) = 4" and "length (FireTriac s) = 4"
    and "\<forall>j. detected env j \<longrightarrow> j < m" and "m < 4"
  shows "measure_half_period env s = None"
proof (cases "measure_half_period env s")
  case None
  then show ?thesis .
next
  case (Some r)
  from measure_half_period_needs_detections [OF assms(1,2) Some] obtain n where
    "length (stamps env 0 n) = 4" by blast
  with stamps_bound [OF assms(3), of 0 n] assms(4) show ?thesis by simp
qed

lemma step_duration_unat:
  fixes t0 t1 t2 t3 :: u32
  assumes "t0 \<le> t1" and "t1 \<le> t2" and "t2 \<le> t3"
  shows "unat ((((t1 - t0) + (t2 - t1) + (t3 - t2)) div 3) div DimRes) =
           ((unat t1 - unat t0) + (unat t2 - unat t1) + (unat t3 - unat t2)) div 3 div 256"
proof -
  have le: "unat t0 \<le> unat t1" "unat t1 \<le> unat t2" "unat t2 \<le> unat t3"
    using assms by (simp_all add: word_le_nat_alt)
  have "t0 \<le> t3" using assms by simp
  then have "unat (t3 - t0) = unat t3 - unat t0" by (rule unat_sub)
  moreover have "(t1 - t0) + (t2 - t1) + (t3 - t2) = t3 - t0" by simp
  moreover have "(unat t1 - unat t0) + (unat t2 - unat t1) + (unat t3 - unat t2) = unat t3 - unat t0"
    using le by simp
  ultimately show ?thesis by (simp add: unat_div DimRes_def)
qed

text \<open>The first measurement under \<open>mains_passes\<close>, evaluated.\<close>

lemma measure_mains_passes:
  "measure_half_period mains_passes init_state = Some (Inr after_boot)"
  by (simp add: measure_half_period_def wait_loop.simps init_state_def mains_passes_def
      fire_triacs_def fire_triac_def emit_def TriacPin_def DimRes_def
      zero_cross_detect_def PeriodResync_def Let_def after_boot_def)

lemma stamps_mains_passes: "stamps mains_passes 0 8 = [0, 8333, 16666, 24999]"
  by code_simp

text \<open>
  C7, as the specification states it: \<^verbatim>\<open>measure_half_period\<close> returns if and only if the
  zero-cross signal is raised at least four times after the call begins. Under \<open>twice_env\<close>
  and under \<open>late_env\<close> the handler raises the signal four times in the first two passes,
  and the measurement does not return: a pass consumes the flag once, whatever the number
  of runs of the handler that set it.
\<close>

theorem measure_half_period_returns_iff_counterexample:
  "crossings twice_env 0 2 = 4 \<and> measure_half_period twice_env init_state = None \<and>
   crossings late_env 0 2 = 4 \<and> measure_half_period late_env init_state = None"
proof -
  have wf: "length (ZeroXTime init_state) = 4" "length (FireTriac init_state) = 4"
    by (simp_all add: init_state_def)
  have "crossings twice_env 0 2 = 4" "crossings late_env 0 2 = 4"
    by code_simp+
  moreover have "\<forall>j. detected twice_env j \<longrightarrow> j < 2"
    by (simp add: detected_def twice_env_def)
  then have "measure_half_period twice_env init_state = None"
    by (intro measure_half_period_blocks [where m = 2] wf) simp_all
  moreover have "\<forall>j. detected late_env j \<longrightarrow> j < 2"
    by (simp add: detected_def late_env_def)
  then have "measure_half_period late_env init_state = None"
    by (intro measure_half_period_blocks [where m = 2] wf) simp_all
  ultimately show ?thesis by simp
qed

text \<open>
  C7, amended. Let the arrays have their four elements. \<^verbatim>\<open>measure_half_period\<close> returns if
  and only if at least four passes of the busy wait detect a crossing, that is find the
  flag set. When it returns, \<^verbatim>\<open>ZeroXTime\<close> holds the values of \<^verbatim>\<open>micros()\<close> of the first
  four such passes, one for each. It never faults. When no pass detects a crossing, it
  does not return. When no pass runs the zero-cross handler more than once before its
  test, and none runs it between the test and \<^verbatim>\<open>zero_cross = 0\<close>, it returns if and only
  if the signal is raised at least four times.
\<close>

theorem measure_half_period_returns_iff:
  assumes "length (ZeroXTime s) = 4" and "length (FireTriac s) = 4"
  shows "((\<exists>s'. measure_half_period env s = Some (Inr s')) \<longleftrightarrow>
            (\<exists>n. 4 \<le> length (stamps env 0 n))) \<and>
         (\<forall>s'. measure_half_period env s = Some (Inr s') \<longrightarrow>
            (\<exists>n. length (stamps env 0 n) = 4 \<and> ZeroXTime s' = stamps env 0 n)) \<and>
         (\<forall>e. measure_half_period env s \<noteq> Some (Inl e)) \<and>
         ((\<forall>k. \<not> detected env k) \<longrightarrow> measure_half_period env s = None) \<and>
         ((\<forall>k. count_list (pending (env k)) ZeroCrossIrq \<le> 1 \<and>
                ZeroCrossIrq \<notin> set (late (env k))) \<longrightarrow>
            ((\<exists>s'. measure_half_period env s = Some (Inr s')) \<longleftrightarrow>
               (\<exists>n. 4 \<le> crossings env 0 n)))"
proof -
  have ret: "\<exists>n. length (stamps env 0 n) = 4 \<and>
               (\<exists>s'. r = Inr s' \<and> ZeroXTime s' = stamps env 0 n)"
    if "measure_half_period env s = Some r" for r
  proof -
    from measure_half_period_needs_detections [OF assms that] obtain n where
      n: "length (stamps env 0 n) = 4" by blast
    from measure_half_period_total [OF assms n] that n show ?thesis by auto
  qed
  have iff: "(\<exists>s'. measure_half_period env s = Some (Inr s')) \<longleftrightarrow>
            (\<exists>n. 4 \<le> length (stamps env 0 n))"
  proof
    assume "\<exists>s'. measure_half_period env s = Some (Inr s')"
    then obtain s' where "measure_half_period env s = Some (Inr s')" by blast
    from ret [OF this] obtain n where "length (stamps env 0 n) = 4" by blast
    then have "4 \<le> length (stamps env 0 n)" by simp
    then show "\<exists>n. 4 \<le> length (stamps env 0 n)" by blast
  next
    assume "\<exists>n. 4 \<le> length (stamps env 0 n)"
    then obtain n where "4 \<le> 0 + length (stamps env 0 n)" by auto
    from stamps_reach [OF this] obtain n' where "length (stamps env 0 n') = 4" by auto
    from measure_half_period_total [OF assms this]
    show "\<exists>s'. measure_half_period env s = Some (Inr s')" by blast
  qed
  have none: "measure_half_period env s = None" if "\<forall>k. \<not> detected env k"
  proof (cases "measure_half_period env s")
    case None
    then show ?thesis .
  next
    case (Some r)
    from ret [OF this] obtain n where "length (stamps env 0 n) = 4" by blast
    with stamps_none [OF that, of 0 n] show ?thesis by simp
  qed
  have once: "(\<exists>s'. measure_half_period env s = Some (Inr s')) \<longleftrightarrow>
               (\<exists>n. 4 \<le> crossings env 0 n)"
    if "\<forall>k. count_list (pending (env k)) ZeroCrossIrq \<le> 1 \<and>
            ZeroCrossIrq \<notin> set (late (env k))"
    using iff crossings_eq_stamps [OF that, of 0] by simp
  from ret iff none once show ?thesis by fastforce
qed

theorem measure_half_period_returns_iff_witness:
  "length (ZeroXTime init_state) = 4 \<and> length (FireTriac init_state) = 4 \<and>
   (\<exists>s'. measure_half_period mains_passes init_state = Some (Inr s')) \<and>
   4 \<le> length (stamps mains_passes 0 8) \<and>
   count_list (pending (mains_passes 3)) ZeroCrossIrq \<le> 1 \<and>
   ZeroCrossIrq \<notin> set (late (mains_passes 3)) \<and>
   4 \<le> crossings mains_passes 0 8 \<and>
   \<not> detected no_mains 5 \<and> measure_half_period no_mains init_state = None"
proof -
  have wf: "length (ZeroXTime init_state) = 4" "length (FireTriac init_state) = 4"
    by (simp_all add: init_state_def)
  have four: "4 \<le> length (stamps mains_passes 0 8)"
    by (simp add: stamps_mains_passes)
  have once: "\<forall>k. count_list (pending (mains_passes k)) ZeroCrossIrq \<le> 1 \<and>
                ZeroCrossIrq \<notin> set (late (mains_passes k))"
    by (simp add: mains_passes_def)
  have quiet: "\<forall>k. \<not> detected no_mains k"
    by (simp add: detected_def no_mains_def)
  note inst = measure_half_period_returns_iff [OF wf, of mains_passes]
  from inst four
  have ret: "\<exists>s'. measure_half_period mains_passes init_state = Some (Inr s')" by blast
  with inst once have "\<exists>n. 4 \<le> crossings mains_passes 0 n" by blast
  moreover have "crossings mains_passes 0 8 = 4" by code_simp
  moreover from measure_half_period_returns_iff [OF wf, of no_mains] quiet
  have "measure_half_period no_mains init_state = None" by blast
  ultimately show ?thesis using wf four once quiet ret by simp
qed

text \<open>
  C2. Let the arrays have their four elements, let four passes among the first \<open>n\<close> of the
  busy wait detect a crossing, at the clock values \<open>t0\<close>, \<open>t1\<close>, \<open>t2\<close>, \<open>t3\<close>, and let these
  be in order. Then \<^verbatim>\<open>measure_half_period\<close> returns, with these four timestamps in
  \<^verbatim>\<open>ZeroXTime\<close>; \<^verbatim>\<open>DimStep\<close> is the sum of the three differences of neighbours, divided by
  3 and then by \<open>DimRes = 256\<close> in integer arithmetic; and the last call to an external
  service is \<^verbatim>\<open>Timer1.attachInterrupt\<close> with exactly \<^verbatim>\<open>DimStep\<close> as the interval.
\<close>

theorem measure_half_period_step:
  assumes "length (ZeroXTime s) = 4" and "length (FireTriac s) = 4"
    and "stamps env 0 n = [t0, t1, t2, t3]"
    and "t0 \<le> t1" and "t1 \<le> t2" and "t2 \<le> t3"
  shows "\<exists>s'. measure_half_period env s = Some (Inr s') \<and>
           ZeroXTime s' = [t0, t1, t2, t3] \<and>
           unat (DimStep s') =
             ((unat t1 - unat t0) + (unat t2 - unat t1) + (unat t3 - unat t2)) div 3 div 256 \<and>
           unat DimRes = 256 \<and>
           (\<exists>evs. trace s' = evs @ [Timer1_attachInterrupt (DimStep s')])"
proof -
  from assms(3) have "length (stamps env 0 n) = 4" by simp
  from measure_half_period_total [OF assms(1,2) this] assms(3) obtain s' where
    ret: "measure_half_period env s = Some (Inr s')" and z: "ZeroXTime s' = [t0, t1, t2, t3]"
    by auto
  from measure_half_period_result [OF ret] z step_duration_unat [OF assms(4,5,6)]
  have "unat (DimStep s') =
             ((unat t1 - unat t0) + (unat t2 - unat t1) + (unat t3 - unat t2)) div 3 div 256"
    by simp
  moreover have "unat DimRes = 256" by (simp add: DimRes_def)
  moreover from measure_half_period_result [OF ret]
  have "\<exists>evs. trace s' = evs @ [Timer1_attachInterrupt (DimStep s')]" by blast
  ultimately show ?thesis using ret z by blast
qed

theorem measure_half_period_step_witness:
  "length (ZeroXTime init_state) = 4 \<and> length (FireTriac init_state) = 4 \<and>
   stamps mains_passes 0 8 = [0, 8333, 16666, 24999] \<and>
   (0 :: u32) \<le> 8333 \<and> (8333 :: u32) \<le> 16666 \<and> (16666 :: u32) \<le> 24999 \<and>
   measure_half_period mains_passes init_state = Some (Inr after_boot) \<and>
   ZeroXTime after_boot = [0, 8333, 16666, 24999] \<and>
   unat (DimStep after_boot) = ((8333 - 0) + (16666 - 8333) + (24999 - 16666)) div 3 div 256 \<and>
   DimStep after_boot = 32 \<and>
   trace after_boot = butlast (trace after_boot) @ [Timer1_attachInterrupt 32]"
proof -
  have wf: "length (ZeroXTime init_state) = 4" "length (FireTriac init_state) = 4"
    by (simp_all add: init_state_def)
  have ord: "(0 :: u32) \<le> 8333" "(8333 :: u32) \<le> 16666" "(16666 :: u32) \<le> 24999"
    by simp_all
  from measure_half_period_step [OF wf stamps_mains_passes ord] measure_mains_passes
  have "unat (DimStep after_boot) =
          ((unat (8333 :: u32) - unat (0 :: u32)) + (unat (16666 :: u32) - unat (8333 :: u32))
           + (unat (24999 :: u32) - unat (16666 :: u32))) div 3 div 256"
    by auto
  then have "unat (DimStep after_boot) = ((8333 - 0) + (16666 - 8333) + (24999 - 16666)) div 3 div 256"
    by simp
  with wf ord stamps_mains_passes measure_mains_passes show ?thesis
    by (simp add: after_boot_def)
qed

subsection \<open>The main loop\<close>

lemma loop_result:
  assumes "loop env s = Some (Inr s')"
  shows "\<exists>s0. (if ResetPeriod s \<le> millis env then measure_half_period (polls env) s
               else Some (Inr s)) = Some (Inr s0) \<and>
              3 < length (FireTriac s0) \<and>
              unat (table_index (analogRead env 0 0)) < length PowerMap \<and>
              unat (table_index (analogRead env 1 1)) < length PowerMap \<and>
              unat (table_index (analogRead env 0 2)) < length PowerMap \<and>
              unat (table_index (analogRead env 1 3)) < length PowerMap \<and>
              s' = s0\<lparr>FireTriac := (FireTriac s0)
                        [0 := ucast (PowerMap ! unat (table_index (analogRead env 0 0))),
                         1 := ucast (PowerMap ! unat (table_index (analogRead env 1 1))),
                         2 := ucast (PowerMap ! unat (table_index (analogRead env 0 2))),
                         3 := ucast (PowerMap ! unat (table_index (analogRead env 1 3)))],
                      DimStepCounter := DimStepCounter s0 + 1\<rparr>"
proof -
  from assms obtain s0 where
    pre: "(if ResetPeriod s \<le> millis env then measure_half_period (polls env) s
               else Some (Inr s)) = Some (Inr s0)"
    and rest: "and_then (set_FireTriac 0 (analogRead env 0 0) s0) (\<lambda>s1.
                and_then (set_FireTriac 1 (analogRead env 1 1) s1) (\<lambda>s2.
                and_then (set_FireTriac 2 (analogRead env 0 2) s2) (\<lambda>s3.
                and_then (set_FireTriac 3 (analogRead env 1 3) s3) (\<lambda>s4.
                Inr (s4\<lparr>DimStepCounter := DimStepCounter s4 + 1\<rparr>))))) = Inr s'"
    unfolding loop_def by (auto split: option.splits sum.splits simp: and_then_def)
  from rest show ?thesis
    using pre
    by (auto simp: set_FireTriac_def PowerMap_at_def and_then_def
             split: sum.splits if_splits)
qed

lemma update4:
  "length xs = 4 \<Longrightarrow> xs[0 := a, 1 := b, 2 := c, 3 := d] = [a, b, c, d]"
  by (cases xs; cases "tl xs"; cases "tl (tl xs)"; cases "tl (tl (tl xs))") auto

lemma set_FireTriac_in_range:
  assumes "0 \<le> sint r" and "sint r \<le> 1023" and "i < length (FireTriac s)"
  shows "set_FireTriac i r s =
           Inr (s\<lparr>FireTriac := (FireTriac s)[i := ucast (PowerMap ! unat (table_index r))]\<rparr>)"
  using table_index_bound [OF assms(1,2)] assms(3)
  by (simp add: set_FireTriac_def PowerMap_at_def PowerMap_length)

lemma loop_total:
  assumes "length (ZeroXTime s) = 4" and "length (FireTriac s) = 4"
    and "0 \<le> sint (analogRead env 0 0)" and "sint (analogRead env 0 0) \<le> 1023"
    and "0 \<le> sint (analogRead env 1 1)" and "sint (analogRead env 1 1) \<le> 1023"
    and "0 \<le> sint (analogRead env 0 2)" and "sint (analogRead env 0 2) \<le> 1023"
    and "0 \<le> sint (analogRead env 1 3)" and "sint (analogRead env 1 3) \<le> 1023"
    and "ResetPeriod s \<le> millis env \<longrightarrow> (\<exists>n. 4 \<le> length (stamps (polls env) 0 n))"
  shows "\<exists>s'. loop env s = Some (Inr s') \<and>
           FireTriac s' = [ucast (PowerMap ! unat (table_index (analogRead env 0 0))),
                           ucast (PowerMap ! unat (table_index (analogRead env 1 1))),
                           ucast (PowerMap ! unat (table_index (analogRead env 0 2))),
                           ucast (PowerMap ! unat (table_index (analogRead env 1 3)))]"
proof -
  have "\<exists>s0. (if ResetPeriod s \<le> millis env then measure_half_period (polls env) s
               else Some (Inr s)) = Some (Inr s0) \<and> FireTriac s0 = FireTriac s"
  proof (cases "ResetPeriod s \<le> millis env")
    case True
    with assms(11) obtain n where "4 \<le> 0 + length (stamps (polls env) 0 n)" by auto
    from stamps_reach [OF this] obtain n' where "length (stamps (polls env) 0 n') = 4" by auto
    from measure_half_period_total [OF assms(1,2) this] True show ?thesis by auto
  next
    case False
    then show ?thesis by simp
  qed
  then obtain s0 where
    pre: "(if ResetPeriod s \<le> millis env then measure_half_period (polls env) s
               else Some (Inr s)) = Some (Inr s0)"
    and ft: "FireTriac s0 = FireTriac s" by blast
  from ft assms(2) have len: "length (FireTriac s0) = 4" by simp
  let ?v0 = "ucast (PowerMap ! unat (table_index (analogRead env 0 0))) :: u32"
  let ?v1 = "ucast (PowerMap ! unat (table_index (analogRead env 1 1))) :: u32"
  let ?v2 = "ucast (PowerMap ! unat (table_index (analogRead env 0 2))) :: u32"
  let ?v3 = "ucast (PowerMap ! unat (table_index (analogRead env 1 3))) :: u32"
  let ?s1 = "s0\<lparr>FireTriac := (FireTriac s0)[0 := ?v0]\<rparr>"
  let ?s2 = "?s1\<lparr>FireTriac := (FireTriac ?s1)[1 := ?v1]\<rparr>"
  let ?s3 = "?s2\<lparr>FireTriac := (FireTriac ?s2)[2 := ?v2]\<rparr>"
  let ?s4 = "?s3\<lparr>FireTriac := (FireTriac ?s3)[3 := ?v3]\<rparr>"
  have a0: "set_FireTriac 0 (analogRead env 0 0) s0 = Inr ?s1"
    using len by (intro set_FireTriac_in_range assms) simp
  have a1: "set_FireTriac 1 (analogRead env 1 1) ?s1 = Inr ?s2"
    using len by (intro set_FireTriac_in_range assms) simp
  have a2: "set_FireTriac 2 (analogRead env 0 2) ?s2 = Inr ?s3"
    using len by (intro set_FireTriac_in_range assms) simp
  have a3: "set_FireTriac 3 (analogRead env 1 3) ?s3 = Inr ?s4"
    using len by (intro set_FireTriac_in_range assms) simp
  have "loop env s = Some (Inr (?s4\<lparr>DimStepCounter := DimStepCounter ?s4 + 1\<rparr>))"
    unfolding loop_def pre using a0 a1 a2 a3 by simp
  moreover have "FireTriac (?s4\<lparr>DimStepCounter := DimStepCounter ?s4 + 1\<rparr>) = [?v0, ?v1, ?v2, ?v3]"
    using update4 [OF len, of ?v0 ?v1 ?v2 ?v3] by simp
  ultimately show ?thesis by blast
qed

lemma loop_publishes_table_values:
  assumes "loop env s = Some (Inr s')" and "i < 4"
  shows "\<exists>L<256. FireTriac s' ! i = ucast (PowerMap ! L)"
proof -
  from loop_result [OF assms(1)] obtain s0 where
    len: "3 < length (FireTriac s0)"
    and idx: "unat (table_index (analogRead env 0 0)) < length PowerMap"
      "unat (table_index (analogRead env 1 1)) < length PowerMap"
      "unat (table_index (analogRead env 0 2)) < length PowerMap"
      "unat (table_index (analogRead env 1 3)) < length PowerMap"
    and s': "s' = s0\<lparr>FireTriac := (FireTriac s0)
                        [0 := ucast (PowerMap ! unat (table_index (analogRead env 0 0))),
                         1 := ucast (PowerMap ! unat (table_index (analogRead env 1 1))),
                         2 := ucast (PowerMap ! unat (table_index (analogRead env 0 2))),
                         3 := ucast (PowerMap ! unat (table_index (analogRead env 1 3)))],
                      DimStepCounter := DimStepCounter s0 + 1\<rparr>"
    by blast
  from len have lens: "0 < length (FireTriac s0)" "1 < length (FireTriac s0)"
    "2 < length (FireTriac s0)" by arith+
  from assms(2) consider "i = 0" | "i = 1" | "i = 2" | "i = 3" by linarith
  then show ?thesis
  proof cases
    case 1
    with len lens s' idx(1) show ?thesis by (auto simp: PowerMap_length)
  next
    case 2
    with len lens s' idx(2) show ?thesis by (auto simp: PowerMap_length)
  next
    case 3
    with len lens s' idx(3) show ?thesis by (auto simp: PowerMap_length)
  next
    case 4
    with len lens s' idx(4) show ?thesis by (auto simp: PowerMap_length)
  qed
qed

text \<open>Passes through \<^verbatim>\<open>loop()\<close>, evaluated.\<close>

lemma loop_quiet_pass:
  "loop quiet_pass init_state =
     Some (Inr (init_state\<lparr>FireTriac := [127, 0, 127, 0], DimStepCounter := 1\<rparr>))"
  by (simp add: loop_def quiet_pass_def init_state_def PeriodResync_def set_FireTriac_def
      PowerMap_at_def table_index_def DimRes_def PowerMap_def)

lemma loop_dark_pass:
  "loop dark_pass init_state =
     Some (Inr (init_state\<lparr>FireTriac := [255, 255, 255, 255], DimStepCounter := 1\<rparr>))"
  by (simp add: loop_def dark_pass_def init_state_def PeriodResync_def set_FireTriac_def
      PowerMap_at_def table_index_def DimRes_def PowerMap_def)

lemma loop_resync_pass:
  "loop resync_pass after_boot =
     Some (Inr (after_boot\<lparr>ResetPeriod := 9000, DimStepCounter := 1,
                  FireTriac := [127, 0, 127, 0],
                  trace := trace after_boot @ trace after_boot\<rparr>))"
  by (simp add: loop_def resync_pass_def after_boot_def measure_half_period_def
      wait_loop.simps mains_passes_def fire_triacs_def fire_triac_def emit_def TriacPin_def
      DimRes_def zero_cross_detect_def PeriodResync_def Let_def set_FireTriac_def
      PowerMap_at_def table_index_def PowerMap_def)




text \<open>
  C6. The step counter is written by code that is not an interrupt handler: a pass
  through \<^verbatim>\<open>loop()\<close> before the deadline, in which no measurement runs and no handler is
  run, takes \<^verbatim>\<open>DimStepCounter\<close> from 0 to 1 (the statement \<^verbatim>\<open>DimStepCounter++\<close> that ends
  \<^verbatim>\<open>loop()\<close>).
\<close>

theorem loop_writes_DimStepCounter:
  "DimStepCounter init_state = 0 \<and> millis quiet_pass < ResetPeriod init_state \<and>
   map_option (map_sum id DimStepCounter) (loop quiet_pass init_state) = Some (Inr 1)"
  by (simp add: loop_quiet_pass) (simp add: init_state_def quiet_pass_def PeriodResync_def)

text \<open>
  C9. Let the arrays have their four elements, let the four samples of a pass through
  \<^verbatim>\<open>loop()\<close> be between 0 and 1023, and, when the measurement is due, let four passes of
  its busy wait detect a crossing. Then the pass returns, \<^verbatim>\<open>FireTriac[0]\<close> and
  \<^verbatim>\<open>FireTriac[2]\<close> are the table entries for the first and the third sample, both read
  from input 0, and \<^verbatim>\<open>FireTriac[1]\<close> and \<^verbatim>\<open>FireTriac[3]\<close> are the entries for the second
  and the fourth sample, both read from input 1. When the two samples of each input are
  equal, \<^verbatim>\<open>FireTriac[0] = FireTriac[2]\<close> and \<^verbatim>\<open>FireTriac[1] = FireTriac[3]\<close>.
\<close>

theorem loop_channel_sources:
  assumes "length (ZeroXTime s) = 4" and "length (FireTriac s) = 4"
    and "0 \<le> sint (analogRead env 0 0)" and "sint (analogRead env 0 0) \<le> 1023"
    and "0 \<le> sint (analogRead env 1 1)" and "sint (analogRead env 1 1) \<le> 1023"
    and "0 \<le> sint (analogRead env 0 2)" and "sint (analogRead env 0 2) \<le> 1023"
    and "0 \<le> sint (analogRead env 1 3)" and "sint (analogRead env 1 3) \<le> 1023"
    and "ResetPeriod s \<le> millis env \<longrightarrow> (\<exists>n. 4 \<le> length (stamps (polls env) 0 n))"
  shows "\<exists>s'. loop env s = Some (Inr s') \<and>
           FireTriac s' ! 0 = ucast (PowerMap ! unat (table_index (analogRead env 0 0))) \<and>
           FireTriac s' ! 2 = ucast (PowerMap ! unat (table_index (analogRead env 0 2))) \<and>
           FireTriac s' ! 1 = ucast (PowerMap ! unat (table_index (analogRead env 1 1))) \<and>
           FireTriac s' ! 3 = ucast (PowerMap ! unat (table_index (analogRead env 1 3))) \<and>
           (analogRead env 0 2 = analogRead env 0 0 \<and> analogRead env 1 3 = analogRead env 1 1 \<longrightarrow>
              FireTriac s' ! 0 = FireTriac s' ! 2 \<and> FireTriac s' ! 1 = FireTriac s' ! 3)"
proof -
  from loop_total [OF assms] obtain s' where
    "loop env s = Some (Inr s')"
    "FireTriac s' = [ucast (PowerMap ! unat (table_index (analogRead env 0 0))),
                           ucast (PowerMap ! unat (table_index (analogRead env 1 1))),
                           ucast (PowerMap ! unat (table_index (analogRead env 0 2))),
                           ucast (PowerMap ! unat (table_index (analogRead env 1 3)))]"
    by blast
  then show ?thesis by (intro exI [of _ s']) simp
qed

theorem loop_channel_sources_witness:
  "length (ZeroXTime after_boot) = 4 \<and> length (FireTriac after_boot) = 4 \<and>
   0 \<le> sint (analogRead resync_pass 0 0) \<and> sint (analogRead resync_pass 0 0) \<le> 1023 \<and>
   0 \<le> sint (analogRead resync_pass 1 1) \<and> sint (analogRead resync_pass 1 1) \<le> 1023 \<and>
   0 \<le> sint (analogRead resync_pass 0 2) \<and> sint (analogRead resync_pass 0 2) \<le> 1023 \<and>
   0 \<le> sint (analogRead resync_pass 1 3) \<and> sint (analogRead resync_pass 1 3) \<le> 1023 \<and>
   ResetPeriod after_boot \<le> millis resync_pass \<and>
   4 \<le> length (stamps (polls resync_pass) 0 8) \<and>
   analogRead resync_pass 0 2 = analogRead resync_pass 0 0 \<and>
   analogRead resync_pass 1 3 = analogRead resync_pass 1 1 \<and>
   map_option (map_sum id FireTriac) (loop resync_pass after_boot) =
     Some (Inr [127, 0, 127, 0])"
proof -
  have wf: "length (ZeroXTime after_boot) = 4" "length (FireTriac after_boot) = 4"
    by (simp_all add: after_boot_def)
  have rd: "0 \<le> sint (analogRead resync_pass 0 0)" "sint (analogRead resync_pass 0 0) \<le> 1023"
    "0 \<le> sint (analogRead resync_pass 1 1)" "sint (analogRead resync_pass 1 1) \<le> 1023"
    "0 \<le> sint (analogRead resync_pass 0 2)" "sint (analogRead resync_pass 0 2) \<le> 1023"
    "0 \<le> sint (analogRead resync_pass 1 3)" "sint (analogRead resync_pass 1 3) \<le> 1023"
    by (simp_all add: resync_pass_def)
  have four: "4 \<le> length (stamps (polls resync_pass) 0 8)"
    by (simp add: resync_pass_def stamps_mains_passes)
  then have due: "ResetPeriod after_boot \<le> millis resync_pass \<longrightarrow>
      (\<exists>n. 4 \<le> length (stamps (polls resync_pass) 0 n))" by blast
  from loop_channel_sources [OF wf rd due] obtain s' where
    s': "loop resync_pass after_boot = Some (Inr s')"
    "FireTriac s' ! 0 = ucast (PowerMap ! unat (table_index (analogRead resync_pass 0 0)))"
    "FireTriac s' ! 2 = ucast (PowerMap ! unat (table_index (analogRead resync_pass 0 2)))"
    by blast
  from s'(1) loop_resync_pass
  have "map_option (map_sum id FireTriac) (loop resync_pass after_boot) =
     Some (Inr [127, 0, 127, 0])" by auto
  with wf rd four show ?thesis
    by (simp add: resync_pass_def after_boot_def)
qed

subsection \<open>A half-cycle at the lowest level\<close>

text \<open>
  Every entry of the table is below \<open>DimRes\<close>. Every fire-step that a pass through
  \<^verbatim>\<open>loop()\<close> publishes is an entry of the table and so below \<open>DimRes\<close>. For a fire-step
  taken from the table, a call of \<^verbatim>\<open>fire_triac\<close> at the matching step counter starts with
  HIGH on the pin: the branch that never asserts the output is not taken. The lowest
  level 0 maps to the fire-step 255, for which the call at step 255 writes HIGH, waits
  and writes LOW.
\<close>

lemma table_steps_below_DimRes:
  "(L < 256 \<longrightarrow> (ucast (PowerMap ! L) :: u32) < DimRes) \<and>
   (loop env s = Some (Inr s') \<and> i < 4 \<longrightarrow>
      FireTriac s' ! i < DimRes \<and> (\<exists>L<256. FireTriac s' ! i = ucast (PowerMap ! L))) \<and>
   (0 \<le> n \<and> n < 4 \<and> length (FireTriac t) = 4 \<and> L < 256 \<and>
    FireTriac t ! nat n = ucast (PowerMap ! L) \<and> DimStepCounter t = FireTriac t ! nat n \<longrightarrow>
      (\<exists>evs. fire_triac n t =
          Inr (t\<lparr>trace := trace t @ DigitalWrite (TriacPin ! nat n) HIGH # evs\<rparr>))) \<and>
   PowerMap_at (table_index 0) = Inr 255 \<and>
   (0 \<le> n \<and> n < 4 \<and> length (FireTriac t) = 4 \<and>
    FireTriac t ! nat n = ucast (PowerMap ! 0) \<and> DimStepCounter t = FireTriac t ! nat n \<longrightarrow>
      fire_triac n t =
        Inr (t\<lparr>trace := trace t @ [DigitalWrite (TriacPin ! nat n) HIGH, DelayMicroseconds 2,
                                     DigitalWrite (TriacPin ! nat n) LOW]\<rparr>))"
proof (intro conjI impI)
  show "(ucast (PowerMap ! L) :: u32) < DimRes" by (rule ucast_u8_less)
next
  assume a: "loop env s = Some (Inr s') \<and> i < 4"
  then obtain L where L: "L < 256" "FireTriac s' ! i = ucast (PowerMap ! L)"
    using loop_publishes_table_values [of env s s' i] by blast
  then show "FireTriac s' ! i < DimRes" by (simp add: ucast_u8_less)
  from L show "\<exists>L<256. FireTriac s' ! i = ucast (PowerMap ! L)" by blast
next
  assume a: "0 \<le> n \<and> n < 4 \<and> length (FireTriac t) = 4 \<and> L < 256 \<and>
    FireTriac t ! nat n = ucast (PowerMap ! L) \<and> DimStepCounter t = FireTriac t ! nat n"
  then have ne: "FireTriac t ! nat n \<noteq> DimRes"
    using ucast_u8_less [of "PowerMap ! L"] by auto
  from a have "fire_triac n t = Inr (t\<lparr>trace := trace t @
           (if FireTriac t ! nat n = DimStepCounter t then
              (if FireTriac t ! nat n \<noteq> DimRes
               then [DigitalWrite (TriacPin ! nat n) HIGH] else []) @
              (if FireTriac t ! nat n \<noteq> DimRes \<and> FireTriac t ! nat n \<noteq> 0
               then [DelayMicroseconds 2] else []) @
              (if FireTriac t ! nat n \<noteq> 0
               then [DigitalWrite (TriacPin ! nat n) LOW] else [])
            else [])\<rparr>)"
    by (intro fire_triac_pulse) simp_all
  with a ne show "\<exists>evs. fire_triac n t =
          Inr (t\<lparr>trace := trace t @ DigitalWrite (TriacPin ! nat n) HIGH # evs\<rparr>)"
    by auto
next
  show "PowerMap_at (table_index 0) = Inr 255"
    by (simp add: PowerMap_at_def table_index_def PowerMap_def)
next
  assume a: "0 \<le> n \<and> n < 4 \<and> length (FireTriac t) = 4 \<and>
    FireTriac t ! nat n = ucast (PowerMap ! 0) \<and> DimStepCounter t = FireTriac t ! nat n"
  have "(ucast (PowerMap ! 0) :: u32) = 255" by (simp add: PowerMap_def)
  with a have v: "FireTriac t ! nat n = 255" by simp
  from a have "fire_triac n t = Inr (t\<lparr>trace := trace t @
           (if FireTriac t ! nat n = DimStepCounter t then
              (if FireTriac t ! nat n \<noteq> DimRes
               then [DigitalWrite (TriacPin ! nat n) HIGH] else []) @
              (if FireTriac t ! nat n \<noteq> DimRes \<and> FireTriac t ! nat n \<noteq> 0
               then [DelayMicroseconds 2] else []) @
              (if FireTriac t ! nat n \<noteq> 0
               then [DigitalWrite (TriacPin ! nat n) LOW] else [])
            else [])\<rparr>)"
    by (intro fire_triac_pulse) simp_all
  with a v show "fire_triac n t =
        Inr (t\<lparr>trace := trace t @ [DigitalWrite (TriacPin ! nat n) HIGH, DelayMicroseconds 2,
                                     DigitalWrite (TriacPin ! nat n) LOW]\<rparr>)"
    by (simp add: DimRes_def)
qed

text \<open>Ticks of Timer1 that find no fire-step equal to the step counter only count.\<close>

lemma fire_triacs_miss:
  assumes "length (FireTriac s) = 4" and "\<forall>i<4. FireTriac s ! i \<noteq> DimStepCounter s"
  shows "fire_triacs s = Inr (s\<lparr>DimStepCounter := DimStepCounter s + 1\<rparr>)"
proof -
  from assms(2) have ne: "FireTriac s ! 0 \<noteq> DimStepCounter s" "FireTriac s ! 1 \<noteq> DimStepCounter s"
    "FireTriac s ! 2 \<noteq> DimStepCounter s" "FireTriac s ! 3 \<noteq> DimStepCounter s"
    by simp_all
  have "fire_triac 0 s = Inr s" "fire_triac 1 s = Inr s" "fire_triac 2 s = Inr s"
    "fire_triac 3 s = Inr s"
    using assms(1) ne by (simp_all add: fire_triac_def TriacPin_length)
  then have "fire_loop 0 s = Inr s" by simp
  then show ?thesis by (simp add: fire_triacs_def)
qed

lemma run_append:
  "run (xs @ ys) s =
     (case run xs s of None \<Rightarrow> None | Some (Inl e) \<Rightarrow> Some (Inl e) | Some (Inr s') \<Rightarrow> run ys s')"
  by (induction xs arbitrary: s) (auto split: option.splits sum.splits)

lemma run_ticks_miss:
  "length (FireTriac s) = 4 \<Longrightarrow>
   \<forall>i<4. \<forall>j<n. FireTriac s ! i \<noteq> DimStepCounter s + word_of_nat j \<Longrightarrow>
     run (replicate n Tick) s = Some (Inr (s\<lparr>DimStepCounter := DimStepCounter s + word_of_nat n\<rparr>))"
proof (induction n arbitrary: s)
  case 0
  then show ?case by simp
next
  case (Suc n)
  from Suc.prems(2) have "\<forall>i<4. FireTriac s ! i \<noteq> DimStepCounter s + word_of_nat 0"
    by blast
  then have "\<forall>i<4. FireTriac s ! i \<noteq> DimStepCounter s" by simp
  from fire_triacs_miss [OF Suc.prems(1) this]
  have tick: "fire_triacs s = Inr (s\<lparr>DimStepCounter := DimStepCounter s + 1\<rparr>)" .
  let ?s1 = "s\<lparr>DimStepCounter := DimStepCounter s + 1\<rparr>"
  have "\<forall>i<4. \<forall>j<n. FireTriac ?s1 ! i \<noteq> DimStepCounter ?s1 + word_of_nat j"
  proof (intro allI impI)
    fix i j assume i: "i < (4::nat)" and "j < n"
    then have "Suc j < Suc n" by simp
    with Suc.prems(2) i have "FireTriac s ! i \<noteq> DimStepCounter s + word_of_nat (Suc j)"
      by blast
    then show "FireTriac ?s1 ! i \<noteq> DimStepCounter ?s1 + word_of_nat j"
      by (simp add: ac_simps)
  qed
  from Suc.IH [OF _ this] Suc.prems(1)
  have "run (replicate n Tick) ?s1 =
          Some (Inr (?s1\<lparr>DimStepCounter := DimStepCounter ?s1 + word_of_nat n\<rparr>))" by simp
  with tick show ?case by (simp add: ac_simps)
qed

lemma of_nat_ne_255: "j < 255 \<Longrightarrow> (255 :: u32) \<noteq> word_of_nat j"
proof
  assume j: "j < 255" and eq: "(255 :: u32) = word_of_nat j"
  from j have "unat (word_of_nat j :: u32) = j" by (simp add: unat_of_nat)
  with eq have "j = unat (255 :: u32)" by simp
  with j show False by simp
qed

lemma dark_start:
  "run [Pass dark_pass, Crossing] init_state =
     Some (Inr (init_state\<lparr>FireTriac := [255, 255, 255, 255], zero_cross := True\<rparr>))"
proof -
  have "run [Pass dark_pass, Crossing] init_state =
          Some (Inr (zero_cross_detect
            (init_state\<lparr>FireTriac := [255, 255, 255, 255], DimStepCounter := 1\<rparr>)))"
    by (simp add: loop_dark_pass)
  also have "zero_cross_detect
            (init_state\<lparr>FireTriac := [255, 255, 255, 255], DimStepCounter := 1\<rparr>) =
          init_state\<lparr>FireTriac := [255, 255, 255, 255], zero_cross := True\<rparr>"
    by (simp add: zero_cross_detect_def init_state_def)
  finally show ?thesis .
qed

lemma dark_255_ticks:
  "run (replicate 255 Tick) (init_state\<lparr>FireTriac := [255, 255, 255, 255], zero_cross := True\<rparr>) =
     Some (Inr (init_state\<lparr>FireTriac := [255, 255, 255, 255], zero_cross := True,
                  DimStepCounter := 255\<rparr>))"
proof -
  let ?s = "init_state\<lparr>FireTriac := [255, 255, 255, 255], zero_cross := True\<rparr>"
  have "\<forall>i<4. \<forall>j<255. FireTriac ?s ! i \<noteq> DimStepCounter ?s + word_of_nat j"
  proof (intro allI impI)
    fix i j :: nat assume "i < 4" "j < 255"
    then consider "i = 0" | "i = 1" | "i = 2" | "i = 3" by linarith
    then show "FireTriac ?s ! i \<noteq> DimStepCounter ?s + word_of_nat j"
      using of_nat_ne_255 [OF \<open>j < 255\<close>] by cases (simp_all add: init_state_def)
  qed
  from run_ticks_miss [of ?s 255, OF _ this] show ?thesis
    by (simp add: init_state_def)
qed

lemma dark_pass_at_255:
  "loop dark_pass (init_state\<lparr>FireTriac := [255, 255, 255, 255], zero_cross := True,
                  DimStepCounter := 255\<rparr>) =
     Some (Inr (init_state\<lparr>FireTriac := [255, 255, 255, 255], zero_cross := True,
                  DimStepCounter := 256\<rparr>))"
  by (simp add: loop_def dark_pass_def init_state_def PeriodResync_def set_FireTriac_def
      PowerMap_at_def table_index_def DimRes_def PowerMap_def)

lemma six_ticks_after:
  "run (replicate 6 Tick) (init_state\<lparr>FireTriac := [255, 255, 255, 255], zero_cross := True,
                  DimStepCounter := 256\<rparr>) =
     Some (Inr (init_state\<lparr>FireTriac := [255, 255, 255, 255], zero_cross := True,
                  DimStepCounter := 262\<rparr>))"
proof -
  have "replicate 6 Tick = [Tick, Tick, Tick, Tick, Tick, Tick]"
    by (simp add: eval_nat_numeral)
  then show ?thesis
    by (simp add: fire_triacs_def fire_triac_def TriacPin_def DimRes_def init_state_def)
qed

lemma tick_at_255:
  "run [Tick] (init_state\<lparr>FireTriac := [255, 255, 255, 255], zero_cross := True,
                  DimStepCounter := 255\<rparr>) =
     Some (Inr (init_state\<lparr>FireTriac := [255, 255, 255, 255], zero_cross := True,
                  DimStepCounter := 256,
                  trace := [DigitalWrite 3 HIGH, DelayMicroseconds 2, DigitalWrite 3 LOW,
                            DigitalWrite 5 HIGH, DelayMicroseconds 2, DigitalWrite 5 LOW,
                            DigitalWrite 6 HIGH, DelayMicroseconds 2, DigitalWrite 6 LOW,
                            DigitalWrite 7 HIGH, DelayMicroseconds 2, DigitalWrite 7 LOW]\<rparr>))"
  by (simp add: fire_triacs_def fire_triac_def emit_def TriacPin_def DimRes_def init_state_def)

text \<open>
  C10. At the lowest level every published fire-step is 255. When only the handlers run
  after the crossing, the tick number 256 finds the step counter at 255 and pulses all
  four gates: the lowest level still gives a gate pulse in the half-cycle. When a pass
  through \<^verbatim>\<open>loop()\<close> runs after the tick number 255, its last statement
  \<^verbatim>\<open>DimStepCounter++\<close> takes the step counter from 255 to 256, no tick finds it at 255, and
  the half-cycle has no write to any output.
\<close>

theorem dark_half_cycle_no_pulse:
  "run dark_half_cycle init_state =
     Some (Inr (init_state\<lparr>FireTriac := [255, 255, 255, 255], zero_cross := True,
                  DimStepCounter := 262\<rparr>)) \<and>
   trace init_state = [] \<and>
   run dark_half_cycle_ticks_only init_state =
     Some (Inr (init_state\<lparr>FireTriac := [255, 255, 255, 255], zero_cross := True,
                  DimStepCounter := 256,
                  trace := [DigitalWrite 3 HIGH, DelayMicroseconds 2, DigitalWrite 3 LOW,
                            DigitalWrite 5 HIGH, DelayMicroseconds 2, DigitalWrite 5 LOW,
                            DigitalWrite 6 HIGH, DelayMicroseconds 2, DigitalWrite 6 LOW,
                            DigitalWrite 7 HIGH, DelayMicroseconds 2, DigitalWrite 7 LOW]\<rparr>))"
proof -
  have "replicate (255 + 1) Tick = replicate 255 Tick @ replicate 1 Tick"
    by (rule replicate_add)
  then have split: "replicate 256 Tick = replicate 255 Tick @ [Tick]"
    by simp
  have "run dark_half_cycle init_state =
     Some (Inr (init_state\<lparr>FireTriac := [255, 255, 255, 255], zero_cross := True,
                  DimStepCounter := 262\<rparr>))"
    unfolding dark_half_cycle_def
    by (simp only: run_append dark_start dark_255_ticks six_ticks_after option.case sum.case)
       (simp add: dark_pass_at_255 six_ticks_after)
  moreover have "run dark_half_cycle_ticks_only init_state =
     Some (Inr (init_state\<lparr>FireTriac := [255, 255, 255, 255], zero_cross := True,
                  DimStepCounter := 256,
                  trace := [DigitalWrite 3 HIGH, DelayMicroseconds 2, DigitalWrite 3 LOW,
                            DigitalWrite 5 HIGH, DelayMicroseconds 2, DigitalWrite 5 LOW,
                            DigitalWrite 6 HIGH, DelayMicroseconds 2, DigitalWrite 6 LOW,
                            DigitalWrite 7 HIGH, DelayMicroseconds 2, DigitalWrite 7 LOW]\<rparr>))"
    unfolding dark_half_cycle_ticks_only_def split
    by (simp only: run_append dark_start dark_255_ticks tick_at_255 option.case sum.case)
  moreover have "trace init_state = []" by (simp add: init_state_def)
  ultimately show ?thesis by simp
qed

end
